theory Spec2Isabelle
  imports Complex_Main "HOL-Library.AList"
begin

section \<open>Time and numbers\<close>

text \<open>
  The Python sources compute with \<open>float\<close>; every float is modelled as a \<open>real\<close>, so
  rounding is left out of the model.

  \<open>time.time()\<close> is an effect: each call reads the wall clock. A \<open>clock\<close> lists the
  readings in the order in which the calls are made (\<open>clk k\<close> is what the call number
  \<open>k\<close> returns), and a function that reads the clock more than once takes the clock and
  the number of readings made so far and returns the new count. A function that reads the
  clock exactly once takes the reading itself. \<open>frozen now\<close> is the clock on which every
  reading is \<open>now\<close>: a call made at the single instant \<open>now\<close>.
\<close>

type_synonym clock = "nat \<Rightarrow> real"

definition frozen :: "real \<Rightarrow> clock" where
  "frozen now = (\<lambda>k. now)"

definition BUTTON_COOLDOWN :: real where
  "BUTTON_COOLDOWN = 3 / 2"

text \<open>\<open>Point\<close> is a named tuple \<open>(x, y)\<close>.\<close>

type_synonym Point = "real \<times> real"

section \<open>The class \<open>_Button\<close>\<close>

record Button =
  finger_is_over :: bool
  prev_time :: real
  prev_pressed_amount :: real

text \<open>\<open>__init__\<close>; \<open>t\<close> is the reading of \<open>time.time()\<close>.\<close>

definition Button_init :: "real \<Rightarrow> Button" where
  "Button_init t = \<lparr>finger_is_over = False, prev_time = t, prev_pressed_amount = 0\<rparr>"

text \<open>\<open>get_pressed_amount\<close>; \<open>t\<close> is the reading of \<open>time.time()\<close>.\<close>

definition get_pressed_amount :: "Button \<Rightarrow> real \<Rightarrow> real" where
  "get_pressed_amount b t =
     (let time_since_last_change = t - prev_time b
      in if finger_is_over b
         then min 1 (prev_pressed_amount b + time_since_last_change / BUTTON_COOLDOWN)
         else max 0 (prev_pressed_amount b - time_since_last_change / BUTTON_COOLDOWN))"

text \<open>
  \<open>press\<close> returns its boolean, the button and the new count of clock readings. On a
  transition it reads the clock three times: inside \<open>get_pressed_amount\<close> for the
  snapshot, for \<open>prev_time\<close>, and inside \<open>get_pressed_amount\<close> for the returned test.
\<close>

definition press :: "clock \<Rightarrow> nat \<Rightarrow> Button \<Rightarrow> bool \<times> Button \<times> nat" where
  "press clk n b =
     (if \<not> finger_is_over b
      then (let b1 = b\<lparr>prev_pressed_amount := get_pressed_amount b (clk n)\<rparr>;
                b2 = b1\<lparr>prev_time := clk (n + 1)\<rparr>;
                b3 = b2\<lparr>finger_is_over := True\<rparr>
            in (get_pressed_amount b3 (clk (n + 2)) = 1, b3, n + 3))
      else (get_pressed_amount b (clk n) = 1, b, n + 1))"

definition un_press :: "clock \<Rightarrow> nat \<Rightarrow> Button \<Rightarrow> Button \<times> nat" where
  "un_press clk n b =
     (if finger_is_over b
      then (let b1 = b\<lparr>prev_pressed_amount := get_pressed_amount b (clk n)\<rparr>;
                b2 = b1\<lparr>prev_time := clk (n + 1)\<rparr>;
                b3 = b2\<lparr>finger_is_over := False\<rparr>
            in (b3, n + 2))
      else (b, n))"

section \<open>The class \<open>Hotspot\<close> of \<open>Hotspot.py\<close>\<close>

text \<open>
  The repository has two classes of this name. This section is the class of
  \<open>Hotspot.py\<close>, whose constructor stores \<open>id\<close>, \<open>_x\<close>, \<open>_y\<close>, \<open>_radius\<close>,
  \<open>_button\<close>, \<open>_is_activated\<close> and \<open>_time_activated\<close>. The class of \<open>main.py\<close> has
  the same methods, word for word, but another constructor, which never stores \<open>_x\<close>
  and \<open>_y\<close>; it is modelled further down, with the function \<open>run\<close> that builds its
  objects. The event listener is not a field of the model: the calls of
  \<open>OnPressDetected\<close> are logged by the loop that makes them.
\<close>

record Hotspot =
  hs_id :: int
  hs_x :: real
  hs_y :: real
  hs_radius :: real
  hs_button :: Button
  is_activated :: bool
  time_activated :: real

text \<open>\<open>__init__\<close>; \<open>t\<close> is the clock reading of the button's constructor.\<close>

definition Hotspot_init :: "int \<Rightarrow> real \<Rightarrow> real \<Rightarrow> real \<Rightarrow> real \<Rightarrow> Hotspot" where
  "Hotspot_init hotspot_id x y radius t =
     \<lparr>hs_id = hotspot_id, hs_x = x, hs_y = y, hs_radius = radius,
      hs_button = Button_init t, is_activated = False, time_activated = 0\<rparr>"

definition is_point_inside :: "Hotspot \<Rightarrow> Point \<Rightarrow> bool" where
  "is_point_inside h point =
     (let squared_dist = (hs_x h - fst point)\<^sup>2 + (hs_y h - snd point)\<^sup>2
      in squared_dist \<le> (hs_radius h)\<^sup>2)"

text \<open>\<open>activate\<close>; \<open>t\<close> is the reading of \<open>time.time()\<close>.\<close>

definition activate :: "Hotspot \<Rightarrow> real \<Rightarrow> Hotspot" where
  "activate h t = (h\<lparr>time_activated := t\<rparr>)\<lparr>is_activated := True\<rparr>"

definition deactivate :: "Hotspot \<Rightarrow> Hotspot" where
  "deactivate h = h\<lparr>is_activated := False\<rparr>"

text \<open>The loop of \<open>update\<close> over the points: it has no \<open>break\<close>.\<close>

definition finger_inside :: "Hotspot \<Rightarrow> Point list \<Rightarrow> bool" where
  "finger_inside h points =
     fold (\<lambda>point inside. if is_point_inside h point then True else inside) points False"

text \<open>\<open>update\<close> returns its boolean, the hotspot and the new count of clock readings.\<close>

definition update :: "clock \<Rightarrow> nat \<Rightarrow> Hotspot \<Rightarrow> Point list \<Rightarrow> bool \<times> Hotspot \<times> nat" where
  "update clk n h points =
     (if is_activated h then (False, h, n)
      else if finger_inside h points
      then (case press clk n (hs_button h) of
              (full, b, n1) \<Rightarrow>
                if full then (True, activate (h\<lparr>hs_button := b\<rparr>) (clk n1), n1 + 1)
                else (False, h\<lparr>hs_button := b\<rparr>, n1))
      else (case un_press clk n (hs_button h) of
              (b, n1) \<Rightarrow> (False, h\<lparr>hs_button := b\<rparr>, n1)))"

section \<open>The arbitration loop, on hotspots of \<open>Hotspot.py\<close>\<close>

text \<open>
  The loop of \<open>run\<close> calls \<open>update\<close>, \<open>deactivate\<close> and \<open>id\<close> on the objects of the
  list \<open>hotspots\<close>. This section is that loop on a list of hotspots of the class of
  \<open>Hotspot.py\<close>, whose \<open>update\<close> never raises; the loop on the objects that \<open>run\<close>
  itself builds is modelled further down. The objects of the list are distinct, so the comparison
  \<open>other_hotspot == hotspot\<close> (identity: the class defines no \<open>__eq__\<close>) is the
  comparison of their positions in the list. \<open>reads\<close> counts the clock readings made so
  far in the frame, and \<open>listener\<close> logs the arguments of the calls of
  \<open>event_listener.OnPressDetected\<close>.
\<close>

record Arbiter =
  hotspots :: "Hotspot list"
  reads :: nat
  listener :: "int list"

text \<open>The inner loop: every hotspot but the one at position \<open>i\<close> is deactivated.\<close>

definition deactivate_others :: "nat \<Rightarrow> Hotspot list \<Rightarrow> Hotspot list" where
  "deactivate_others i hs =
     fold (\<lambda>j hs'. if j = i then hs' else hs'[j := deactivate (hs' ! j)]) [0..<length hs] hs"

text \<open>The body of \<open>for hotspot in hotspots\<close> for the hotspot at position \<open>i\<close>.\<close>

definition arbiter_step :: "clock \<Rightarrow> Point list \<Rightarrow> nat \<Rightarrow> Arbiter \<Rightarrow> Arbiter" where
  "arbiter_step clk fingertip_coords i w =
     (case update clk (reads w) (hotspots w ! i) fingertip_coords of
        (hotspot_just_activated, h, n1) \<Rightarrow>
          if hotspot_just_activated
          then \<lparr>hotspots = deactivate_others i ((hotspots w)[i := h]), reads = n1,
                listener = listener w @ [hs_id h]\<rparr>
          else \<lparr>hotspots = (hotspots w)[i := h], reads = n1, listener = listener w\<rparr>)"

text \<open>
  One pass over the hotspots, on the hotspots and the listener's log; \<open>clk\<close> lists the
  clock readings made during the pass.
\<close>

definition arbiter_pass ::
  "clock \<Rightarrow> Point list \<Rightarrow> Hotspot list \<times> int list \<Rightarrow> Hotspot list \<times> int list" where
  "arbiter_pass clk fingertip_coords s =
     (let w = fold (arbiter_step clk fingertip_coords) [0..<length (fst s)]
                \<lparr>hotspots = fst s, reads = 0, listener = snd s\<rparr>
      in (hotspots w, listener w))"

definition media_finished :: "Hotspot list \<Rightarrow> Hotspot list" where
  "media_finished hs = map deactivate hs"

text \<open>
  One iteration of the \<open>while\<close> loop of \<open>run\<close> is given by what it reads: an
  unsuccessful video read, or a frame with the clock readings of its pass, the fingertips
  of the hand model (\<open>None\<close> when \<open>multi_hand_landmarks\<close> is \<open>None\<close>: the pass is then
  skipped) and the key pressed. \<open>run_loop\<close> is the state after a finite run of
  iterations; the key \<open>q\<close> leaves the loop.
\<close>

datatype key = KeyC | KeyQ | KeyOther

datatype frame = ReadFailed | Captured clock "Point list option" key

fun run_loop :: "frame list \<Rightarrow> Hotspot list \<times> int list \<Rightarrow> Hotspot list \<times> int list" where
  "run_loop [] s = s"
| "run_loop (ReadFailed # fs) s = run_loop fs s"
| "run_loop (Captured clk landmarks k # fs) s =
     (let s1 = (case landmarks of None \<Rightarrow> s | Some pts \<Rightarrow> arbiter_pass clk pts s)
      in if k = KeyC then run_loop fs (media_finished (fst s1), snd s1)
         else if k = KeyQ then s1
         else run_loop fs s1)"

definition count_activated :: "Hotspot list \<Rightarrow> nat" where
  "count_activated hs = length (filter is_activated hs)"

text \<open>
  In a frame taken at the single clock reading \<open>now\<close>, a hotspot is \<open>charged\<close> when a
  fingertip is inside it and \<open>press\<close> reports a full charge, and it \<open>crosses\<close> the
  activation threshold when moreover it is not activated yet. The hotspot at position
  \<open>j\<close> \<open>fires\<close> when it is charged and not activated at its turn: it was not activated
  before the frame, or an earlier hotspot has crossed the threshold and deactivated it.
\<close>

definition charged :: "real \<Rightarrow> Point list \<Rightarrow> Hotspot \<Rightarrow> bool" where
  "charged now pts h = (finger_inside h pts \<and> fst (press (frozen now) 0 (hs_button h)))"

definition crosses :: "real \<Rightarrow> Point list \<Rightarrow> Hotspot \<Rightarrow> bool" where
  "crosses now pts h = (\<not> is_activated h \<and> charged now pts h)"

definition fires :: "real \<Rightarrow> Point list \<Rightarrow> Hotspot list \<Rightarrow> nat \<Rightarrow> bool" where
  "fires now pts hs j =
     (charged now pts (hs ! j)
      \<and> (\<not> is_activated (hs ! j) \<or> filter (crosses now pts) (take j hs) \<noteq> []))"

definition fired :: "real \<Rightarrow> Point list \<Rightarrow> Hotspot list \<Rightarrow> nat list" where
  "fired now pts hs = filter (fires now pts hs) [0..<length hs]"

text \<open>The state of the pass after the first \<open>k\<close> hotspots, in a frame taken at \<open>now\<close>.\<close>

definition pass_inv ::
  "real \<Rightarrow> Point list \<Rightarrow> Hotspot list \<Rightarrow> int list \<Rightarrow> nat \<Rightarrow> Arbiter \<Rightarrow> bool" where
  "pass_inv now pts hs evs k w =
     (length (hotspots w) = length hs
      \<and> listener w = evs @ map (\<lambda>j. hs_id (hs ! j)) (filter (fires now pts hs) [0..<k])
      \<and> (\<forall>j<length hs. k \<le> j \<longrightarrow>
            hotspots w ! j = (if filter (fires now pts hs) [0..<k] = [] then hs ! j
                              else deactivate (hs ! j)))
      \<and> (\<forall>j<length hs.
            is_activated (hotspots w ! j)
              = (if filter (fires now pts hs) [0..<k] = [] then is_activated (hs ! j)
                 else j = last (filter (fires now pts hs) [0..<k]))))"

text \<open>Two fingertips, at \<open>(0.5, 0.5)\<close> and at \<open>(0.8, 0.8)\<close>.\<close>

definition both_fingers :: "Point list" where
  "both_fingers = [(1 / 2, 1 / 2), (4 / 5, 4 / 5)]"

text \<open>
  Two hotspots of the class of \<open>Hotspot.py\<close> centred on these points, with a finger
  over each since time 0, none activated.
\<close>

definition held_pair :: "Hotspot list" where
  "held_pair =
     [\<lparr>hs_id = 0, hs_x = 1 / 2, hs_y = 1 / 2, hs_radius = 3 / 100,
       hs_button = \<lparr>finger_is_over = True, prev_time = 0, prev_pressed_amount = 0\<rparr>,
       is_activated = False, time_activated = 0\<rparr>,
      \<lparr>hs_id = 1, hs_x = 4 / 5, hs_y = 4 / 5, hs_radius = 3 / 100,
       hs_button = \<lparr>finger_is_over = True, prev_time = 0, prev_pressed_amount = 0\<rparr>,
       is_activated = False, time_activated = 0\<rparr>]"

definition touch_both :: "real \<Rightarrow> frame" where
  "touch_both now = Captured (frozen now) (Some both_fingers) KeyOther"

section \<open>Clocks and buttons for the transitions\<close>

text \<open>
  \<open>clock_of ts\<close> is the clock whose readings are those of the list \<open>ts\<close>, in order (the
  last one is repeated). \<open>button_ok\<close> is the range of \<open>prev_pressed_amount\<close>.
\<close>

definition clock_of :: "real list \<Rightarrow> clock" where
  "clock_of ts k = ts ! min k (length ts - 1)"

definition button_ok :: "Button \<Rightarrow> bool" where
  "button_ok b = (0 \<le> prev_pressed_amount b \<and> prev_pressed_amount b \<le> 1)"

section \<open>The marker layout and the class \<open>Calibrator\<close>\<close>

text \<open>
  \<open>calibrate\<close> (and \<open>takePhoto\<close>) fill the dictionary \<open>projectedCoords\<close> with two
  nested loops, \<open>for i in range(6)\<close> and \<open>for j in range(12)\<close>, storing
  \<open>(25 + 150 * i, 25 + 150 * j)\<close> under a running \<open>code\<close>. \<open>grid_coords\<close> is that
  loop with the four literals as parameters; \<open>projectedCoords\<close> is the source's
  instance. A dictionary is an association list in insertion order, and
  \<open>AList.update\<close> is the assignment \<open>d[k] = v\<close>.
\<close>

definition place_marker ::
  "int \<Rightarrow> int \<Rightarrow> nat \<Rightarrow> nat \<Rightarrow> (nat \<times> int \<times> int) list \<times> nat
   \<Rightarrow> (nat \<times> int \<times> int) list \<times> nat" where
  "place_marker spacing offset i j s =
     (case s of (projectedCoords, code) \<Rightarrow>
        (AList.update code (offset + spacing * int i, offset + spacing * int j) projectedCoords,
         code + 1))"

definition grid_coords :: "nat \<Rightarrow> nat \<Rightarrow> int \<Rightarrow> int \<Rightarrow> (nat \<times> int \<times> int) list \<times> nat" where
  "grid_coords rows cols spacing offset =
     fold (\<lambda>i. fold (place_marker spacing offset i) [0..<cols]) [0..<rows] ([], 0)"

definition projectedCoords :: "(nat \<times> int \<times> int) list" where
  "projectedCoords = fst (grid_coords 6 12 150 25)"

text \<open>
  The outcomes of the calibration methods. \<open>InsufficientCorrespondences\<close>,
  \<open>DegenerateCorrespondences\<close> and \<open>NotCalibrated\<close> are the errors of the
  specification's taxonomy; \<open>Cv2Error\<close> is an exception raised inside OpenCV.
  OpenCV is not part of the sources: \<open>cv2.findHomography\<close> and
  \<open>cv2.perspectiveTransform\<close> are parameters of the methods that call them, and a call
  either raises or returns. The first component of the result of \<open>cv2.findHomography\<close>
  is a matrix or \<open>None\<close>.
\<close>

datatype failure = InsufficientCorrespondences | DegenerateCorrespondences | NotCalibrated | Cv2Error

datatype 'a library = LibraryRaises | LibraryReturns 'a

type_synonym Matrix = "real list list"

record Calibrator =
  screenWidth :: int
  screenHeight :: int
  cameraWidth :: "nat option"
  cameraHeight :: "nat option"
  tMatrix :: "Matrix option"
  inverseTMatrix :: "Matrix option"

definition Calibrator_init :: "int \<times> int \<Rightarrow> Calibrator" where
  "Calibrator_init screenDimensions =
     \<lparr>screenWidth = fst screenDimensions, screenHeight = snd screenDimensions,
      cameraWidth = None, cameraHeight = None, tMatrix = None, inverseTMatrix = None\<rparr>"

definition identity3 :: Matrix where
  "identity3 = [[1, 0, 0], [0, 1, 0], [0, 0, 1]]"

definition skipCalibration :: "Calibrator \<Rightarrow> Calibrator" where
  "skipCalibration c = c\<lparr>tMatrix := Some identity3, inverseTMatrix := Some identity3\<rparr>"

text \<open>
  The loop of \<open>_getTransformationMatrix\<close> over the keys of \<open>fromCoords\<close>, and the
  method itself: below four matches it prints a message and returns \<open>None\<close>.
\<close>

definition matching ::
  "(nat \<times> Point) list \<Rightarrow> (nat \<times> Point) list \<Rightarrow> Point list \<times> Point list" where
  "matching fromCoords toCoords =
     fold (\<lambda>iD (fromArray, toArray).
             case (map_of fromCoords iD, map_of toCoords iD) of
               (Some p, Some q) \<Rightarrow> (fromArray @ [p], toArray @ [q])
             | _ \<Rightarrow> (fromArray, toArray))
          (map fst fromCoords) ([], [])"

definition getTransformationMatrix ::
  "(Point list \<Rightarrow> Point list \<Rightarrow> Matrix option library)
   \<Rightarrow> (nat \<times> Point) list \<Rightarrow> (nat \<times> Point) list \<Rightarrow> failure + Matrix option" where
  "getTransformationMatrix findHomography fromCoords toCoords =
     (case matching fromCoords toCoords of
        (fromArray, toArray) \<Rightarrow>
          if length fromArray < 4 then Inr None
          else (case findHomography fromArray toArray of
                  LibraryRaises \<Rightarrow> Inl Cv2Error
                | LibraryReturns m \<Rightarrow> Inr m))"

text \<open>
  The end of \<open>calibrate\<close>, from the shape of the photo and the dictionary of detected
  markers on (both come from the camera and from the marker detector). The integer
  coordinates of \<open>projectedCoords\<close> become floats in \<open>np.array\<close>.
\<close>

definition float_coords :: "(nat \<times> int \<times> int) list \<Rightarrow> (nat \<times> Point) list" where
  "float_coords coords = map (\<lambda>(code, (a, b)). (code, (real_of_int a, real_of_int b))) coords"

definition calibrate_from ::
  "(Point list \<Rightarrow> Point list \<Rightarrow> Matrix option library)
   \<Rightarrow> nat \<times> nat \<Rightarrow> (nat \<times> Point) list \<Rightarrow> Calibrator \<Rightarrow> failure + Calibrator" where
  "calibrate_from findHomography shape cameraCoords c =
     (let c1 = c\<lparr>cameraWidth := Some (fst shape), cameraHeight := Some (snd shape)\<rparr>
      in case getTransformationMatrix findHomography (float_coords projectedCoords) cameraCoords of
           Inl e \<Rightarrow> Inl e
         | Inr m \<Rightarrow>
             (case getTransformationMatrix findHomography cameraCoords (float_coords projectedCoords) of
                Inl e \<Rightarrow> Inl e
              | Inr mi \<Rightarrow> Inr (c1\<lparr>tMatrix := m, inverseTMatrix := mi\<rparr>)))"

definition transform ::
  "(Point \<Rightarrow> Matrix option \<Rightarrow> Point library) \<Rightarrow> Calibrator \<Rightarrow> Point \<Rightarrow> failure + Point" where
  "transform perspectiveTransform c vector =
     (case perspectiveTransform vector (tMatrix c) of
        LibraryRaises \<Rightarrow> Inl Cv2Error
      | LibraryReturns transformedVector \<Rightarrow> Inr (snd transformedVector, fst transformedVector))"

definition inverseTransform ::
  "(Point \<Rightarrow> Matrix option \<Rightarrow> Point library) \<Rightarrow> Calibrator \<Rightarrow> Point \<Rightarrow> failure + Point" where
  "inverseTransform perspectiveTransform c vector =
     (case perspectiveTransform vector (inverseTMatrix c) of
        LibraryRaises \<Rightarrow> Inl Cv2Error
      | LibraryReturns transformedVector \<Rightarrow> Inr (snd transformedVector, fst transformedVector))"

text \<open>
  An instance of each library function, for evaluating the methods on concrete inputs:
  the projective map of one point by a 3 by 3 matrix, which raises on any other matrix
  and on \<open>None\<close>; and a \<open>findHomography\<close> that never finds a matrix.
\<close>

fun cv2_perspectiveTransform :: "Point \<Rightarrow> Matrix option \<Rightarrow> Point library" where
  "cv2_perspectiveTransform (x, y) (Some [[a, b, c], [d, e, f], [g, h, i]]) =
     (let w = g * x + h * y + i
      in LibraryReturns (if w = 0 then (0, 0)
                         else ((a * x + b * y + c) / w, (d * x + e * y + f) / w)))"
| "cv2_perspectiveTransform v m = LibraryRaises"

definition cv2_no_homography :: "Point list \<Rightarrow> Point list \<Rightarrow> Matrix option library" where
  "cv2_no_homography srcPoints dstPoints = LibraryReturns None"

text \<open>Observations of three markers of the layout, and of two of them and a stranger.\<close>

definition three_markers :: "(nat \<times> Point) list" where
  "three_markers = [(0, (31, 40)), (1, (33, 95)), (12, (88, 38))]"

definition two_markers :: "(nat \<times> Point) list" where
  "two_markers = [(5, (60, 41)), (70, (57, 300)), (99, (12, 12))]"

section \<open>The class \<open>Hotspot\<close> of \<open>main.py\<close> and the function \<open>run\<close>\<close>

text \<open>
  The constructor of \<open>main.py\<close> is \<open>Hotspot(id, proj_pos, calibrator, event_listener,
  radius)\<close>: it stores \<open>id\<close>, \<open>_proj_pos\<close>, the result of
  \<open>calibrator.transform4Mediapipes(proj_pos)\<close> as \<open>_cam_pos\<close>, \<open>_radius\<close>, a new button
  and the two activation fields. It stores no \<open>_x\<close> and no \<open>_y\<close>, the two fields that
  \<open>_is_point_inside\<close> reads: that method raises \<open>AttributeError\<close> on every call.

  Python checks no argument type, so an argument is a \<open>pyvalue\<close>: a float, a pair of
  numbers or a calibrator. Looking up \<open>transform4Mediapipes\<close> on a value that is not a
  calibrator raises \<open>AttributeError\<close>; \<open>np.array(...).reshape(-1, 1, 2)\<close> raises
  \<open>ValueError\<close> on a single float and \<open>TypeError\<close> on an object; dividing by a camera
  size that is still \<open>None\<close> raises \<open>TypeError\<close> (a size that is set is the size of
  a photo, and positive). An exception ends the call, and the model keeps the exception
  only.
\<close>

datatype pyvalue = PyFloat real | PyTuple Point | PyCalibrator Calibrator

datatype py_exception = AttributeError | ValueError | TypeError | Raised failure

definition transform4Mediapipes ::
  "(Point \<Rightarrow> Matrix option \<Rightarrow> Point library) \<Rightarrow> Calibrator \<Rightarrow> pyvalue \<Rightarrow> py_exception + Point" where
  "transform4Mediapipes perspectiveTransform c coords =
     (case coords of
        PyTuple vector \<Rightarrow>
          (case transform perspectiveTransform c vector of
             Inl e \<Rightarrow> Inl (Raised e)
           | Inr cameraCoords \<Rightarrow>
               (case (cameraWidth c, cameraHeight c) of
                  (Some w, Some h) \<Rightarrow>
                    Inr (snd cameraCoords / real h, fst cameraCoords / real w)
                | _ \<Rightarrow> Inl TypeError))
      | PyFloat x \<Rightarrow> Inl ValueError
      | PyCalibrator x \<Rightarrow> Inl TypeError)"

record MainHotspot =
  m_id :: int
  m_proj_pos :: pyvalue
  m_cam_pos :: Point
  m_radius :: real
  m_button :: Button
  m_is_activated :: bool
  m_time_activated :: real

definition MainHotspot_init ::
  "(Point \<Rightarrow> Matrix option \<Rightarrow> Point library)
   \<Rightarrow> int \<Rightarrow> pyvalue \<Rightarrow> pyvalue \<Rightarrow> real \<Rightarrow> real \<Rightarrow> py_exception + MainHotspot" where
  "MainHotspot_init perspectiveTransform hotspot_id proj_pos calibrator radius t =
     (case calibrator of
        PyCalibrator c \<Rightarrow>
          (case transform4Mediapipes perspectiveTransform c proj_pos of
             Inl e \<Rightarrow> Inl e
           | Inr cam_pos \<Rightarrow>
               Inr \<lparr>m_id = hotspot_id, m_proj_pos = proj_pos, m_cam_pos = cam_pos,
                    m_radius = radius, m_button = Button_init t, m_is_activated = False,
                    m_time_activated = 0\<rparr>)
      | PyFloat x \<Rightarrow> Inl AttributeError
      | PyTuple x \<Rightarrow> Inl AttributeError)"

definition main_is_point_inside :: "MainHotspot \<Rightarrow> Point \<Rightarrow> py_exception + bool" where
  "main_is_point_inside h point = Inl AttributeError"

definition main_finger_inside :: "MainHotspot \<Rightarrow> Point list \<Rightarrow> py_exception + bool" where
  "main_finger_inside h points =
     fold (\<lambda>point r. case r of
                        Inl e \<Rightarrow> Inl e
                      | Inr inside \<Rightarrow>
                          (case main_is_point_inside h point of
                             Inl e \<Rightarrow> Inl e
                           | Inr is_inside \<Rightarrow> Inr (if is_inside then True else inside)))
          points (Inr False)"

definition main_activate :: "MainHotspot \<Rightarrow> real \<Rightarrow> MainHotspot" where
  "main_activate h t = (h\<lparr>m_time_activated := t\<rparr>)\<lparr>m_is_activated := True\<rparr>"

definition main_deactivate :: "MainHotspot \<Rightarrow> MainHotspot" where
  "main_deactivate h = h\<lparr>m_is_activated := False\<rparr>"

definition main_update ::
  "clock \<Rightarrow> nat \<Rightarrow> MainHotspot \<Rightarrow> Point list \<Rightarrow> py_exception + bool \<times> MainHotspot \<times> nat" where
  "main_update clk n h points =
     (if m_is_activated h then Inr (False, h, n)
      else (case main_finger_inside h points of
              Inl e \<Rightarrow> Inl e
            | Inr inside \<Rightarrow>
                if inside
                then (case press clk n (m_button h) of
                        (full, b, n1) \<Rightarrow>
                          if full
                          then Inr (True, main_activate (h\<lparr>m_button := b\<rparr>) (clk n1), n1 + 1)
                          else Inr (False, h\<lparr>m_button := b\<rparr>, n1))
                else (case un_press clk n (m_button h) of
                        (b, n1) \<Rightarrow> Inr (False, h\<lparr>m_button := b\<rparr>, n1))))"

text \<open>
  The loop of \<open>run\<close> on these objects: the same steps as above, and an exception raised
  by \<open>update\<close> leaves the loop and the function.
\<close>

record MainArbiter =
  m_hotspots :: "MainHotspot list"
  m_reads :: nat
  m_listener :: "int list"

definition main_deactivate_others :: "nat \<Rightarrow> MainHotspot list \<Rightarrow> MainHotspot list" where
  "main_deactivate_others i hs =
     fold (\<lambda>j hs'. if j = i then hs' else hs'[j := main_deactivate (hs' ! j)]) [0..<length hs] hs"

definition main_arbiter_step ::
  "clock \<Rightarrow> Point list \<Rightarrow> nat \<Rightarrow> MainArbiter \<Rightarrow> py_exception + MainArbiter" where
  "main_arbiter_step clk fingertip_coords i w =
     (case main_update clk (m_reads w) (m_hotspots w ! i) fingertip_coords of
        Inl e \<Rightarrow> Inl e
      | Inr (hotspot_just_activated, h, n1) \<Rightarrow>
          if hotspot_just_activated
          then Inr \<lparr>m_hotspots = main_deactivate_others i ((m_hotspots w)[i := h]),
                    m_reads = n1, m_listener = m_listener w @ [m_id h]\<rparr>
          else Inr \<lparr>m_hotspots = (m_hotspots w)[i := h], m_reads = n1,
                    m_listener = m_listener w\<rparr>)"

definition main_arbiter_pass ::
  "clock \<Rightarrow> Point list \<Rightarrow> MainHotspot list \<times> int list
   \<Rightarrow> py_exception + MainHotspot list \<times> int list" where
  "main_arbiter_pass clk fingertip_coords s =
     (case fold (\<lambda>i r. case r of
                          Inl e \<Rightarrow> Inl e
                        | Inr w \<Rightarrow> main_arbiter_step clk fingertip_coords i w)
                [0..<length (fst s)]
                (Inr \<lparr>m_hotspots = fst s, m_reads = 0, m_listener = snd s\<rparr>) of
        Inl e \<Rightarrow> Inl e
      | Inr w \<Rightarrow> Inr (m_hotspots w, m_listener w))"

fun main_run_loop ::
  "frame list \<Rightarrow> MainHotspot list \<times> int list \<Rightarrow> py_exception + MainHotspot list \<times> int list" where
  "main_run_loop [] s = Inr s"
| "main_run_loop (ReadFailed # fs) s = main_run_loop fs s"
| "main_run_loop (Captured clk landmarks k # fs) s =
     (case (case landmarks of None \<Rightarrow> Inr s | Some pts \<Rightarrow> main_arbiter_pass clk pts s) of
        Inl e \<Rightarrow> Inl e
      | Inr s1 \<Rightarrow>
          if k = KeyC then main_run_loop fs (map main_deactivate (fst s1), snd s1)
          else if k = KeyQ then Inr s1
          else main_run_loop fs s1)"

text \<open>
  \<open>run\<close>, from the line that builds the hotspots on (the hand model is initialised and
  the capture has opened): \<open>hotspots = [Hotspot(0, 0.5, 0.5, event_listener),
  Hotspot(1, 0.8, 0.8, event_listener)]\<close>, then the loop over the frames. In the class
  of \<open>main.py\<close> the second and third arguments are \<open>proj_pos\<close> and \<open>calibrator\<close>, and
  the listener is bound to \<open>event_listener\<close>. \<open>t0\<close> and \<open>t1\<close> are the clock readings of
  the two button constructors.
\<close>

definition run ::
  "(Point \<Rightarrow> Matrix option \<Rightarrow> Point library) \<Rightarrow> real \<Rightarrow> real \<Rightarrow> frame list
   \<Rightarrow> py_exception + MainHotspot list \<times> int list" where
  "run perspectiveTransform t0 t1 frames =
     (case MainHotspot_init perspectiveTransform 0 (PyFloat (1 / 2)) (PyFloat (1 / 2)) (3 / 100) t0 of
        Inl e \<Rightarrow> Inl e
      | Inr h0 \<Rightarrow>
          (case MainHotspot_init perspectiveTransform 1 (PyFloat (4 / 5)) (PyFloat (4 / 5))
                  (3 / 100) t1 of
             Inl e \<Rightarrow> Inl e
           | Inr h1 \<Rightarrow> main_run_loop frames ([h0, h1], [])))"

section \<open>The button\<close>

lemma finger_inside_iff:
  "finger_inside h points = (\<exists>p \<in> set points. is_point_inside h p)"
proof -
  have "fold (\<lambda>point inside. if is_point_inside h point then True else inside) points acc
        = (acc \<or> (\<exists>p \<in> set points. is_point_inside h p))" for acc
    by (induction points arbitrary: acc) auto
  then show ?thesis by (simp add: finger_inside_def)
qed

text \<open>
  C3. The pressed amount read at time \<open>now\<close> is
  \<open>min 1 (prev_pressed_amount + (now - prev_time) / BUTTON_COOLDOWN)\<close> while the finger is
  over the hotspot and \<open>max 0 (prev_pressed_amount - (now - prev_time) / BUTTON_COOLDOWN)\<close>
  while it is not, with \<open>BUTTON_COOLDOWN = 1.5\<close>.
\<close>

theorem get_pressed_amount_value:
  "(finger_is_over b \<longrightarrow>
      get_pressed_amount b now
        = min 1 (prev_pressed_amount b + (now - prev_time b) / BUTTON_COOLDOWN))
   \<and> (\<not> finger_is_over b \<longrightarrow>
      get_pressed_amount b now
        = max 0 (prev_pressed_amount b - (now - prev_time b) / BUTTON_COOLDOWN))
   \<and> BUTTON_COOLDOWN = 3 / 2"
  by (simp add: get_pressed_amount_def BUTTON_COOLDOWN_def)

theorem get_pressed_amount_value_witness:
  "finger_is_over \<lparr>finger_is_over = True, prev_time = 0, prev_pressed_amount = 0\<rparr>
   \<and> get_pressed_amount \<lparr>finger_is_over = True, prev_time = 0, prev_pressed_amount = 0\<rparr> (3 / 4)
       = 1 / 2
   \<and> \<not> finger_is_over \<lparr>finger_is_over = False, prev_time = 0, prev_pressed_amount = 1\<rparr>
   \<and> get_pressed_amount \<lparr>finger_is_over = False, prev_time = 0, prev_pressed_amount = 1\<rparr> (3 / 4)
       = 1 / 2"
  using get_pressed_amount_value
          [of "\<lparr>finger_is_over = True, prev_time = 0, prev_pressed_amount = 0\<rparr>" "3 / 4"]
        get_pressed_amount_value
          [of "\<lparr>finger_is_over = False, prev_time = 0, prev_pressed_amount = 1\<rparr>" "3 / 4"]
  by simp

text \<open>
  C10. \<open>press\<close> on a button whose finger is already over changes no field, and \<open>un_press\<close>
  on a button whose finger is already away changes no field; the button changes exactly
  when the call is a transition, and then \<open>finger_is_over\<close> flips.
\<close>

theorem no_retrigger_while_held:
  "(finger_is_over b \<longrightarrow> fst (snd (press clk n b)) = b)
   \<and> (\<not> finger_is_over b \<longrightarrow> fst (un_press clk n b) = b)
   \<and> (fst (snd (press clk n b)) \<noteq> b \<longleftrightarrow> \<not> finger_is_over b)
   \<and> (fst (un_press clk n b) \<noteq> b \<longleftrightarrow> finger_is_over b)
   \<and> finger_is_over (fst (snd (press clk n b)))
   \<and> \<not> finger_is_over (fst (un_press clk n b))"
proof -
  have p: "fst (snd (press clk n b)) = b" if "finger_is_over b"
    using that by (simp add: press_def)
  have u: "fst (un_press clk n b) = b" if "\<not> finger_is_over b"
    using that by (simp add: un_press_def)
  have pf: "finger_is_over (fst (snd (press clk n b)))"
    by (simp add: press_def Let_def)
  have uf: "\<not> finger_is_over (fst (un_press clk n b))"
    by (simp add: un_press_def Let_def)
  have pc: "fst (snd (press clk n b)) \<noteq> b" if "\<not> finger_is_over b"
    using that pf by metis
  have uc: "fst (un_press clk n b) \<noteq> b" if "finger_is_over b"
    using that uf by metis
  show ?thesis using p u pf uf pc uc by blast
qed

theorem no_retrigger_while_held_witness:
  "finger_is_over \<lparr>finger_is_over = True, prev_time = 1, prev_pressed_amount = 1 / 4\<rparr>
   \<and> fst (snd (press (frozen 2) 0 \<lparr>finger_is_over = True, prev_time = 1, prev_pressed_amount = 1 / 4\<rparr>))
       = \<lparr>finger_is_over = True, prev_time = 1, prev_pressed_amount = 1 / 4\<rparr>
   \<and> \<not> finger_is_over \<lparr>finger_is_over = False, prev_time = 1, prev_pressed_amount = 1 / 4\<rparr>
   \<and> fst (un_press (frozen 2) 0 \<lparr>finger_is_over = False, prev_time = 1, prev_pressed_amount = 1 / 4\<rparr>)
       = \<lparr>finger_is_over = False, prev_time = 1, prev_pressed_amount = 1 / 4\<rparr>"
  using no_retrigger_while_held
          [of "\<lparr>finger_is_over = True, prev_time = 1, prev_pressed_amount = 1 / 4\<rparr>" "frozen 2" 0]
        no_retrigger_while_held
          [of "\<lparr>finger_is_over = False, prev_time = 1, prev_pressed_amount = 1 / 4\<rparr>" "frozen 2" 0]
  by simp

subsection \<open>The value across a transition\<close>

lemma get_pressed_amount_range:
  assumes "button_ok b" "prev_time b \<le> t"
  shows "0 \<le> get_pressed_amount b t \<and> get_pressed_amount b t \<le> 1"
proof -
  have d: "0 \<le> (t - prev_time b) / BUTTON_COOLDOWN"
    using assms(2) by (simp add: BUTTON_COOLDOWN_def)
  show ?thesis
    using assms(1) d unfolding get_pressed_amount_def button_ok_def Let_def
    by (cases "finger_is_over b") auto
qed

lemma get_pressed_amount_continuous: "continuous_on UNIV (get_pressed_amount b)"
  unfolding get_pressed_amount_def Let_def
  by (cases "finger_is_over b") (auto intro!: continuous_intros simp: BUTTON_COOLDOWN_def)

text \<open>
  With any clock, a transition restarts the curve from the snapshot: the amount stored is
  the one read first, and the amount read at the stored time is the amount stored.
\<close>

lemma press_restarts_from_snapshot:
  assumes "button_ok b" "\<not> finger_is_over b" "prev_time b \<le> clk n"
  shows "prev_pressed_amount (fst (snd (press clk n b))) = get_pressed_amount b (clk n)"
    and "prev_time (fst (snd (press clk n b))) = clk (n + 1)"
    and "get_pressed_amount (fst (snd (press clk n b))) (clk (n + 1))
           = get_pressed_amount b (clk n)"
  using assms get_pressed_amount_range[OF assms(1,3)]
  by (simp_all add: press_def Let_def get_pressed_amount_def)

lemma un_press_restarts_from_snapshot:
  assumes "button_ok b" "finger_is_over b" "prev_time b \<le> clk n"
  shows "prev_pressed_amount (fst (un_press clk n b)) = get_pressed_amount b (clk n)"
    and "prev_time (fst (un_press clk n b)) = clk (n + 1)"
    and "get_pressed_amount (fst (un_press clk n b)) (clk (n + 1))
           = get_pressed_amount b (clk n)"
  using assms get_pressed_amount_range[OF assms(1,3)]
  by (simp_all add: un_press_def Let_def get_pressed_amount_def)

text \<open>
  When the two readings of a transition are equal, the amount read at that time is the
  same before and after the call.
\<close>

lemma un_press_same_reading:
  assumes "finger_is_over b" "button_ok b" "prev_time b \<le> clk n" "clk (n + 1) = clk n"
  shows "get_pressed_amount (fst (un_press clk n b)) (clk (n + 1))
           = get_pressed_amount b (clk (n + 1))"
  using un_press_restarts_from_snapshot(3)[where b = b and clk = clk and n = n] assms
  by simp

lemma press_same_reading:
  assumes "\<not> finger_is_over b" "button_ok b" "prev_time b \<le> clk n" "clk (n + 1) = clk n"
  shows "get_pressed_amount (fst (snd (press clk n b))) (clk (n + 1))
           = get_pressed_amount b (clk (n + 1))"
  using press_restarts_from_snapshot(3)[where b = b and clk = clk and n = n] assms
  by simp

text \<open>
  When they differ, the amount drops at the stored transition time by the gap between
  the readings, divided by the cooldown (as long as the amount is below its ceiling).
\<close>

lemma un_press_jump:
  assumes "finger_is_over b" "button_ok b" "prev_time b \<le> clk n" "clk n \<le> clk (n + 1)"
    and "prev_pressed_amount b + (clk (n + 1) - prev_time b) / BUTTON_COOLDOWN \<le> 1"
  shows "get_pressed_amount b (clk (n + 1))
           - get_pressed_amount (fst (un_press clk n b)) (clk (n + 1))
         = (clk (n + 1) - clk n) / BUTTON_COOLDOWN"
proof -
  have a: "get_pressed_amount (fst (un_press clk n b)) (clk (n + 1))
             = get_pressed_amount b (clk n)"
    using un_press_restarts_from_snapshot(3)[where b = b and clk = clk and n = n] assms(1,2,3)
    by simp
  have le: "prev_pressed_amount b + (clk n - prev_time b) / BUTTON_COOLDOWN
              \<le> prev_pressed_amount b + (clk (n + 1) - prev_time b) / BUTTON_COOLDOWN"
    using assms(4) by (simp add: BUTTON_COOLDOWN_def)
  have b1: "get_pressed_amount b (clk (n + 1))
              = prev_pressed_amount b + (clk (n + 1) - prev_time b) / BUTTON_COOLDOWN"
    using assms(1,5) by (simp add: get_pressed_amount_def)
  have b0: "get_pressed_amount b (clk n)
              = prev_pressed_amount b + (clk n - prev_time b) / BUTTON_COOLDOWN"
    using assms(1,5) le by (simp add: get_pressed_amount_def)
  show ?thesis unfolding a b1 b0 by (simp add: diff_divide_distrib)
qed

text \<open>
  C4. A button with the finger over it since time 0, and \<open>un_press\<close> with the clock
  reading 0.3 inside \<open>get_pressed_amount\<close> and 0.6 for \<open>prev_time\<close>: the call stores
  the amount 1/5 with the time 0.6, so that at 0.6 the amount is 2/5 just before the call
  and 1/5 just after it. The amount stored is not the value at the stored instant, and the
  value jumps at the transition.
\<close>

theorem transition_jump:
  "clock_of [3 / 10, 6 / 10] 0 \<le> clock_of [3 / 10, 6 / 10] 1
   \<and> prev_time (fst (un_press (clock_of [3 / 10, 6 / 10]) 0
        \<lparr>finger_is_over = True, prev_time = 0, prev_pressed_amount = 0\<rparr>)) = 6 / 10
   \<and> prev_pressed_amount (fst (un_press (clock_of [3 / 10, 6 / 10]) 0
        \<lparr>finger_is_over = True, prev_time = 0, prev_pressed_amount = 0\<rparr>)) = 1 / 5
   \<and> get_pressed_amount \<lparr>finger_is_over = True, prev_time = 0, prev_pressed_amount = 0\<rparr> (6 / 10)
       = 2 / 5
   \<and> get_pressed_amount (fst (un_press (clock_of [3 / 10, 6 / 10]) 0
        \<lparr>finger_is_over = True, prev_time = 0, prev_pressed_amount = 0\<rparr>)) (6 / 10) = 1 / 5"
  by (simp add: clock_of_def un_press_def get_pressed_amount_def BUTTON_COOLDOWN_def Let_def)

section \<open>Activation and deactivation of one hotspot\<close>

text \<open>
  C8. \<open>deactivate\<close> clears \<open>is_activated\<close> and changes nothing else: the id, the centre,
  the radius, the activation time and the three fields of the button keep their values,
  so the pressed amount read afterwards is the one read before.
\<close>

theorem deactivate_frame:
  "\<not> is_activated (deactivate h)
   \<and> hs_id (deactivate h) = hs_id h
   \<and> hs_x (deactivate h) = hs_x h
   \<and> hs_y (deactivate h) = hs_y h
   \<and> hs_radius (deactivate h) = hs_radius h
   \<and> time_activated (deactivate h) = time_activated h
   \<and> hs_button (deactivate h) = hs_button h
   \<and> finger_is_over (hs_button (deactivate h)) = finger_is_over (hs_button h)
   \<and> prev_time (hs_button (deactivate h)) = prev_time (hs_button h)
   \<and> prev_pressed_amount (hs_button (deactivate h)) = prev_pressed_amount (hs_button h)
   \<and> get_pressed_amount (hs_button (deactivate h)) t = get_pressed_amount (hs_button h) t
   \<and> deactivate h = h\<lparr>is_activated := False\<rparr>"
  by (simp add: deactivate_def)

text \<open>
  C9. Activating twice with the same clock reading leaves the hotspot as activating once
  does, and deactivating twice leaves it as deactivating once does.
\<close>

theorem activate_deactivate_idempotent:
  "activate (activate h now) now = activate h now
   \<and> deactivate (deactivate h) = deactivate h"
  by (simp add: activate_def deactivate_def)

section \<open>The arbitration loop\<close>

lemma fold_upt_invariant:
  assumes "P w" and "\<And>i w. i < n \<Longrightarrow> P w \<Longrightarrow> P (f i w)"
  shows "P (fold f [0..<n] w)"
  using assms(2)
proof (induction n)
  case 0
  show ?case using assms(1) by simp
next
  case (Suc n)
  have "P (fold f [0..<n] w)" using Suc.IH Suc.prems by simp
  then have "P (f n (fold f [0..<n] w))" using Suc.prems by simp
  then show ?case by simp
qed

lemma fold_upt_indexed:
  assumes "P 0 w" and "\<And>i w. i < n \<Longrightarrow> P i w \<Longrightarrow> P (Suc i) (f i w)"
  shows "P n (fold f [0..<n] w)"
  using assms(2)
proof (induction n)
  case 0
  show ?case using assms(1) by simp
next
  case (Suc n)
  have "P n (fold f [0..<n] w)" using Suc.IH Suc.prems by simp
  then have "P (Suc n) (f n (fold f [0..<n] w))" using Suc.prems by simp
  then show ?case by simp
qed

lemma deactivate_others_aux:
  "k \<le> length hs \<Longrightarrow>
   length (fold (\<lambda>j hs'. if j = i then hs' else hs'[j := deactivate (hs' ! j)]) [0..<k] hs)
     = length hs
   \<and> (\<forall>j<length hs.
        fold (\<lambda>j hs'. if j = i then hs' else hs'[j := deactivate (hs' ! j)]) [0..<k] hs ! j
          = (if j < k \<and> j \<noteq> i then deactivate (hs ! j) else hs ! j))"
proof (induction k)
  case 0
  show ?case by simp
next
  case (Suc k)
  then show ?case by (auto simp: nth_list_update less_Suc_eq)
qed

lemma length_deactivate_others: "length (deactivate_others i hs) = length hs"
  using deactivate_others_aux[of "length hs" hs i] by (simp add: deactivate_others_def)

lemma nth_deactivate_others:
  "j < length hs \<Longrightarrow>
   deactivate_others i hs ! j = (if j = i then hs ! j else deactivate (hs ! j))"
  using deactivate_others_aux[of "length hs" hs i] by (simp add: deactivate_others_def)

lemma update_result:
  assumes "update clk n h pts = (ja, h', n')"
  shows "hs_id h' = hs_id h" and "is_activated h' = (ja \<or> is_activated h)"
  using assms
  by (auto simp: update_def activate_def split: if_splits prod.splits)

lemma count_activated_card:
  "count_activated hs = card {i. i < length hs \<and> is_activated (hs ! i)}"
  by (simp add: count_activated_def length_filter_conv_card)

lemma arbiter_step_flags:
  assumes "i < length (hotspots w)"
  shows "length (hotspots (arbiter_step clk pts i w)) = length (hotspots w)"
    and "(listener (arbiter_step clk pts i w) = listener w @ [hs_id (hotspots w ! i)]
          \<and> (\<forall>j<length (hotspots w).
                is_activated (hotspots (arbiter_step clk pts i w) ! j) = (j = i)))
         \<or> (listener (arbiter_step clk pts i w) = listener w
          \<and> (\<forall>j<length (hotspots w). is_activated (hotspots (arbiter_step clk pts i w) ! j)
                = is_activated (hotspots w ! j)))"
proof -
  obtain ja h' n' where u: "update clk (reads w) (hotspots w ! i) pts = (ja, h', n')"
    by (cases "update clk (reads w) (hotspots w ! i) pts") auto
  note r = update_result[OF u]
  show "length (hotspots (arbiter_step clk pts i w)) = length (hotspots w)"
    by (simp add: arbiter_step_def u length_deactivate_others)
  show "(listener (arbiter_step clk pts i w) = listener w @ [hs_id (hotspots w ! i)]
          \<and> (\<forall>j<length (hotspots w).
                is_activated (hotspots (arbiter_step clk pts i w) ! j) = (j = i)))
         \<or> (listener (arbiter_step clk pts i w) = listener w
          \<and> (\<forall>j<length (hotspots w). is_activated (hotspots (arbiter_step clk pts i w) ! j)
                = is_activated (hotspots w ! j)))"
  proof (cases ja)
    case True
    then show ?thesis using assms r
      by (simp add: arbiter_step_def u nth_deactivate_others nth_list_update deactivate_def)
  next
    case False
    then show ?thesis using assms r
      by (simp add: arbiter_step_def u nth_list_update)
  qed
qed

lemma arbiter_step_count:
  assumes "i < length (hotspots w)" "count_activated (hotspots w) \<le> 1"
  shows "count_activated (hotspots (arbiter_step clk pts i w)) \<le> 1"
proof -
  note f = arbiter_step_flags[OF assms(1), of clk pts]
  from f(2) show ?thesis
  proof
    assume a: "listener (arbiter_step clk pts i w) = listener w @ [hs_id (hotspots w ! i)]
          \<and> (\<forall>j<length (hotspots w).
                is_activated (hotspots (arbiter_step clk pts i w) ! j) = (j = i))"
    then have "{j. j < length (hotspots (arbiter_step clk pts i w))
                 \<and> is_activated (hotspots (arbiter_step clk pts i w) ! j)} = {i}"
      using f(1) assms(1) by auto
    then show ?thesis by (simp add: count_activated_card)
  next
    assume a: "listener (arbiter_step clk pts i w) = listener w
          \<and> (\<forall>j<length (hotspots w). is_activated (hotspots (arbiter_step clk pts i w) ! j)
                = is_activated (hotspots w ! j))"
    then have "{j. j < length (hotspots (arbiter_step clk pts i w))
                 \<and> is_activated (hotspots (arbiter_step clk pts i w) ! j)}
             = {j. j < length (hotspots w) \<and> is_activated (hotspots w ! j)}"
      using f(1) by auto
    then show ?thesis using assms(2) by (simp add: count_activated_card)
  qed
qed

lemma arbiter_pass_count:
  assumes "count_activated hs \<le> 1"
  shows "count_activated (fst (arbiter_pass clk pts (hs, evs))) \<le> 1"
proof -
  let ?P = "\<lambda>w::Arbiter. length (hotspots w) = length hs \<and> count_activated (hotspots w) \<le> 1"
  have "?P (fold (arbiter_step clk pts) [0..<length hs]
              \<lparr>hotspots = hs, reads = 0, listener = evs\<rparr>)"
  proof (rule fold_upt_invariant)
    show "?P \<lparr>hotspots = hs, reads = 0, listener = evs\<rparr>" using assms by simp
  next
    fix i w assume "i < length hs" "?P w"
    then show "?P (arbiter_step clk pts i w)"
      using arbiter_step_flags(1)[of i w clk pts] arbiter_step_count[of i w clk pts] by simp
  qed
  then show ?thesis by (simp add: arbiter_pass_def Let_def)
qed

lemma count_media_finished: "count_activated (media_finished hs) = 0"
  by (simp add: count_activated_def media_finished_def deactivate_def filter_empty_conv)

lemma run_loop_count:
  "count_activated (fst s) \<le> 1 \<Longrightarrow> count_activated (fst (run_loop fs s)) \<le> 1"
proof (induction fs arbitrary: s)
  case Nil
  then show ?case by simp
next
  case (Cons f fs)
  show ?case
  proof (cases f)
    case ReadFailed
    then show ?thesis using Cons.IH[OF Cons.prems] by simp
  next
    case (Captured clk landmarks k)
    define s1 where "s1 = (case landmarks of None \<Rightarrow> s | Some pts \<Rightarrow> arbiter_pass clk pts s)"
    have c1: "count_activated (fst s1) \<le> 1"
      using Cons.prems arbiter_pass_count[of "fst s" clk _ "snd s"]
      by (cases landmarks) (simp_all add: s1_def)
    have c2: "count_activated (fst (media_finished (fst s1), snd s1)) \<le> 1"
      by (simp add: count_media_finished)
    have "run_loop (f # fs) s =
            (if k = KeyC then run_loop fs (media_finished (fst s1), snd s1)
             else if k = KeyQ then s1 else run_loop fs s1)"
      by (simp add: Captured s1_def Let_def)
    then show ?thesis using c1 Cons.IH[OF c1] Cons.IH[OF c2] by simp
  qed
qed

text \<open>
  C1. Mutual exclusion. A pass over a list in which at most one hotspot is activated
  leaves at most one hotspot activated; and from any list of newly constructed hotspots,
  after any run of iterations of the loop of \<open>run\<close> (passes, skipped frames,
  \<open>media_finished\<close>), at most one hotspot is activated.
\<close>

theorem mutual_exclusion:
  "(count_activated hs \<le> 1 \<longrightarrow> count_activated (fst (arbiter_pass clk pts (hs, evs))) \<le> 1)
   \<and> count_activated
       (fst (run_loop fs (map (\<lambda>(i, x, y, r, t). Hotspot_init i x y r t) specs, []))) \<le> 1"
proof -
  have "count_activated (map (\<lambda>(i, x, y, r, t). Hotspot_init i x y r t) specs) = 0"
    by (auto simp: count_activated_def filter_empty_conv Hotspot_init_def)
  then show ?thesis
    using arbiter_pass_count[of hs clk pts evs]
          run_loop_count[of "(map (\<lambda>(i, x, y, r, t). Hotspot_init i x y r t) specs, [])" fs]
    by simp
qed


theorem mutual_exclusion_witness:
  "count_activated
     [activate (Hotspot_init 0 (1 / 2) (1 / 2) (3 / 100) 0) 1,
      Hotspot_init 1 (4 / 5) (4 / 5) (3 / 100) 0] \<le> 1
   \<and> count_activated
       (fst (arbiter_pass (frozen 2) both_fingers
               ([activate (Hotspot_init 0 (1 / 2) (1 / 2) (3 / 100) 0) 1,
                 Hotspot_init 1 (4 / 5) (4 / 5) (3 / 100) 0], []))) \<le> 1"
proof -
  have h: "count_activated
     [activate (Hotspot_init 0 (1 / 2) (1 / 2) (3 / 100) 0) 1,
      Hotspot_init 1 (4 / 5) (4 / 5) (3 / 100) 0] \<le> 1"
    by (simp add: count_activated_def activate_def Hotspot_init_def)
  show ?thesis
    using h mutual_exclusion
              [where hs = "[activate (Hotspot_init 0 (1 / 2) (1 / 2) (3 / 100) 0) 1,
                            Hotspot_init 1 (4 / 5) (4 / 5) (3 / 100) 0]"
                 and clk = "frozen 2" and pts = both_fingers and evs = "[]"]
    by blast
qed

subsection \<open>Several hotspots charged in one frame\<close>

lemma press_frozen:
  "fst (press (frozen now) n b) = fst (press (frozen now) 0 b)"
  by (simp add: press_def frozen_def Let_def)

lemma charged_deactivate: "charged now pts (deactivate h) = charged now pts h"
  by (simp add: charged_def finger_inside_def is_point_inside_def deactivate_def)

lemma update_frozen:
  assumes "update (frozen now) n h pts = (ja, h', n')"
  shows "ja = (\<not> is_activated h \<and> charged now pts h)"
proof -
  obtain full b n1 where p: "press (frozen now) n (hs_button h) = (full, b, n1)"
    by (cases "press (frozen now) n (hs_button h)") auto
  have "full = fst (press (frozen now) 0 (hs_button h))"
    using press_frozen[of now n "hs_button h"] p by simp
  then show ?thesis
    using assms p by (auto simp: update_def charged_def split: if_splits prod.splits)
qed

lemma fires_upt_Suc:
  "filter (fires now pts hs) [0..<Suc k]
     = filter (fires now pts hs) [0..<k] @ (if fires now pts hs k then [k] else [])"
  by simp

lemma fired_before_iff:
  "k \<le> length hs \<Longrightarrow>
   (filter (fires now pts hs) [0..<k] \<noteq> []) = (filter (crosses now pts) (take k hs) \<noteq> [])"
proof (induction k)
  case 0
  show ?case by simp
next
  case (Suc k)
  then have k: "k < length hs"
    and ih: "(filter (fires now pts hs) [0..<k] \<noteq> [])
               = (filter (crosses now pts) (take k hs) \<noteq> [])"
    by simp_all
  have t: "take (Suc k) hs = take k hs @ [hs ! k]"
    using k by (simp add: take_Suc_conv_app_nth)
  have l: "(filter (fires now pts hs) [0..<Suc k] \<noteq> [])
             = (filter (fires now pts hs) [0..<k] \<noteq> [] \<or> fires now pts hs k)"
    by simp
  have r: "(filter (crosses now pts) (take (Suc k) hs) \<noteq> [])
             = (filter (crosses now pts) (take k hs) \<noteq> [] \<or> crosses now pts (hs ! k))"
    unfolding t by simp
  have f: "fires now pts hs k
             = (charged now pts (hs ! k)
                \<and> (\<not> is_activated (hs ! k) \<or> filter (crosses now pts) (take k hs) \<noteq> []))"
    by (simp add: fires_def)
  have c: "crosses now pts (hs ! k) = (\<not> is_activated (hs ! k) \<and> charged now pts (hs ! k))"
    by (simp add: crosses_def)
  show ?case unfolding l r f c ih by blast
qed

text \<open>
  When no hotspot is activated before the frame, the hotspots that fire are the hotspots
  that cross the activation threshold.
\<close>

lemma fires_iff_crosses:
  assumes "\<forall>h \<in> set hs. \<not> is_activated h" "j < length hs"
  shows "fires now pts hs j = crosses now pts (hs ! j)"
  using assms by (simp add: fires_def crosses_def)

lemma last_filter_upt_less:
  "filter P [0..<k] \<noteq> [] \<Longrightarrow> last (filter P [0..<k]) < k"
proof -
  assume a: "filter P [0..<k] \<noteq> []"
  then have "last (filter P [0..<k]) \<in> set (filter P [0..<k])" by (rule last_in_set)
  then show ?thesis by simp
qed

lemma pass_inv_step:
  assumes inv: "pass_inv now pts hs evs k w" and k: "k < length hs"
  shows "pass_inv now pts hs evs (Suc k) (arbiter_step (frozen now) pts k w)"
proof -
  let ?fl = "filter (fires now pts hs) [0..<k]"
  let ?h = "hotspots w ! k"
  have len: "length (hotspots w) = length hs"
    and lis: "listener w = evs @ map (\<lambda>j. hs_id (hs ! j)) ?fl"
    and rest: "\<And>j. j < length hs \<Longrightarrow> k \<le> j \<Longrightarrow>
                 hotspots w ! j = (if ?fl = [] then hs ! j else deactivate (hs ! j))"
    and flags: "\<And>j. j < length hs \<Longrightarrow>
                 is_activated (hotspots w ! j)
                   = (if ?fl = [] then is_activated (hs ! j) else j = last ?fl)"
    using inv by (simp_all add: pass_inv_def)
  have hk: "?h = (if ?fl = [] then hs ! k else deactivate (hs ! k))"
    using rest[of k] k by simp
  have act_h: "is_activated ?h = (?fl = [] \<and> is_activated (hs ! k))"
    using hk by (simp add: deactivate_def)
  have ch_h: "charged now pts ?h = charged now pts (hs ! k)"
    using hk by (simp add: charged_deactivate)
  have id_h: "hs_id ?h = hs_id (hs ! k)"
    using hk by (simp add: deactivate_def)
  obtain ja h' n' where u: "update (frozen now) (reads w) ?h pts = (ja, h', n')"
    by (cases "update (frozen now) (reads w) ?h pts") auto
  have ja: "ja = fires now pts hs k"
    using update_frozen[OF u] act_h ch_h fired_before_iff[of k hs now pts] k
    by (auto simp: fires_def)
  note r = update_result[OF u]
  show ?thesis
  proof (cases ja)
    case True
    have fl': "filter (fires now pts hs) [0..<Suc k] = ?fl @ [k]"
      using True ja by simp
    have w': "arbiter_step (frozen now) pts k w
                = \<lparr>hotspots = deactivate_others k ((hotspots w)[k := h']), reads = n',
                   listener = listener w @ [hs_id h']\<rparr>"
      using True by (simp add: arbiter_step_def u)
    have nth': "hotspots (arbiter_step (frozen now) pts k w) ! j
                  = (if j = k then h' else deactivate (hotspots w ! j))" if "j < length hs" for j
      using that len k by (simp add: w' nth_deactivate_others nth_list_update)
    have a: "length (hotspots (arbiter_step (frozen now) pts k w)) = length hs"
      by (simp add: w' length_deactivate_others len)
    have b: "listener (arbiter_step (frozen now) pts k w)
               = evs @ map (\<lambda>j. hs_id (hs ! j)) (?fl @ [k])"
      using lis r(1) id_h by (simp add: w')
    have c: "hotspots (arbiter_step (frozen now) pts k w) ! j = deactivate (hs ! j)"
      if "j < length hs" "Suc k \<le> j" for j
      using that nth'[of j] rest[of j] by (simp add: deactivate_def)
    have d: "is_activated (hotspots (arbiter_step (frozen now) pts k w) ! j) = (j = k)"
      if "j < length hs" for j
      using that nth'[of j] r(2) True by (simp add: deactivate_def)
    show ?thesis
      unfolding pass_inv_def fl' using a b c d by simp
  next
    case False
    have fl': "filter (fires now pts hs) [0..<Suc k] = ?fl"
      using False ja by simp
    have w': "arbiter_step (frozen now) pts k w
                = \<lparr>hotspots = (hotspots w)[k := h'], reads = n', listener = listener w\<rparr>"
      using False by (simp add: arbiter_step_def u)
    have nth': "hotspots (arbiter_step (frozen now) pts k w) ! j
                  = (if j = k then h' else hotspots w ! j)" if "j < length hs" for j
      using that len k by (simp add: w' nth_list_update)
    have a: "length (hotspots (arbiter_step (frozen now) pts k w)) = length hs"
      by (simp add: w' len)
    have b: "listener (arbiter_step (frozen now) pts k w)
               = evs @ map (\<lambda>j. hs_id (hs ! j)) ?fl"
      using lis by (simp add: w')
    have c: "hotspots (arbiter_step (frozen now) pts k w) ! j
               = (if ?fl = [] then hs ! j else deactivate (hs ! j))"
      if "j < length hs" "Suc k \<le> j" for j
      using that nth'[of j] rest[of j] by simp
    have d: "is_activated (hotspots (arbiter_step (frozen now) pts k w) ! j)
               = (if ?fl = [] then is_activated (hs ! j) else j = last ?fl)"
      if "j < length hs" for j
    proof (cases "j = k")
      case True
      have "is_activated h' = is_activated ?h" using r(2) False by simp
      moreover have "k \<noteq> last ?fl" if "?fl \<noteq> []"
        using last_filter_upt_less[OF that] by simp
      ultimately show ?thesis using True nth'[of k] k act_h by auto
    next
      case False
      then show ?thesis using that nth'[of j] flags[of j] by simp
    qed
    show ?thesis
      unfolding pass_inv_def fl' using a b c d by simp
  qed
qed

text \<open>
  The loop on hotspots of \<open>Hotspot.py\<close>, in a frame taken at one clock reading: every
  hotspot that is charged and not activated at its turn is activated and the listener is
  called with its id, in iteration order; each activation deactivates every other
  hotspot, so when at least one hotspot fires the last one to fire is the only activated
  hotspot at the end of the frame, and when none fires no flag changes.
\<close>

lemma last_wins:
  "snd (arbiter_pass (frozen now) pts (hs, evs))
     = evs @ map (\<lambda>j. hs_id (hs ! j)) (fired now pts hs)
   \<and> length (fst (arbiter_pass (frozen now) pts (hs, evs))) = length hs
   \<and> (\<forall>j<length hs.
         is_activated (fst (arbiter_pass (frozen now) pts (hs, evs)) ! j)
           = (if fired now pts hs = [] then is_activated (hs ! j)
              else j = last (fired now pts hs)))"
proof -
  have "pass_inv now pts hs evs (length hs)
          (fold (arbiter_step (frozen now) pts) [0..<length hs]
             \<lparr>hotspots = hs, reads = 0, listener = evs\<rparr>)"
  proof (rule fold_upt_indexed)
    show "pass_inv now pts hs evs 0 \<lparr>hotspots = hs, reads = 0, listener = evs\<rparr>"
      by (simp add: pass_inv_def)
  next
    fix i w
    assume "i < length hs" "pass_inv now pts hs evs i w"
    then show "pass_inv now pts hs evs (Suc i) (arbiter_step (frozen now) pts i w)"
      by (rule pass_inv_step[rotated])
  qed
  then show ?thesis
    by (simp add: pass_inv_def arbiter_pass_def Let_def fired_def)
qed


lemma last_wins_two_held:
  "fired 2 both_fingers held_pair = [0, 1]
   \<and> snd (arbiter_pass (frozen 2) both_fingers (held_pair, [])) = [0, 1]
   \<and> length (fst (arbiter_pass (frozen 2) both_fingers (held_pair, []))) = 2
   \<and> \<not> is_activated (fst (arbiter_pass (frozen 2) both_fingers (held_pair, [])) ! 0)
   \<and> is_activated (fst (arbiter_pass (frozen 2) both_fingers (held_pair, [])) ! 1)"
proof -
  have f: "fired 2 both_fingers held_pair = [0, 1]"
    by (simp add: fired_def fires_def crosses_def charged_def held_pair_def both_fingers_def
          finger_inside_def is_point_inside_def press_def get_pressed_amount_def
          BUTTON_COOLDOWN_def frozen_def upt_rec power2_eq_square)
  have l: "length held_pair = 2"
    by (simp add: held_pair_def)
  have i: "held_pair ! 0 = \<lparr>hs_id = 0, hs_x = 1 / 2, hs_y = 1 / 2, hs_radius = 3 / 100,
       hs_button = \<lparr>finger_is_over = True, prev_time = 0, prev_pressed_amount = 0\<rparr>,
       is_activated = False, time_activated = 0\<rparr>"
    "held_pair ! Suc 0 = \<lparr>hs_id = 1, hs_x = 4 / 5, hs_y = 4 / 5, hs_radius = 3 / 100,
       hs_button = \<lparr>finger_is_over = True, prev_time = 0, prev_pressed_amount = 0\<rparr>,
       is_activated = False, time_activated = 0\<rparr>"
    by (simp_all add: held_pair_def)
  note t = last_wins[of 2 both_fingers held_pair "[]"]
  have a: "snd (arbiter_pass (frozen 2) both_fingers (held_pair, [])) = [0, 1]"
    using t unfolding f by (simp add: i)
  have b: "length (fst (arbiter_pass (frozen 2) both_fingers (held_pair, []))) = 2"
    using t l by simp
  have c: "\<forall>j<2. is_activated (fst (arbiter_pass (frozen 2) both_fingers (held_pair, [])) ! j)
                   = (j = 1)"
    using t unfolding f l by simp
  have c0: "\<not> is_activated (fst (arbiter_pass (frozen 2) both_fingers (held_pair, [])) ! 0)"
    using c by simp
  have c1: "is_activated (fst (arbiter_pass (frozen 2) both_fingers (held_pair, [])) ! 1)"
    using c by simp
  show ?thesis using f a b c0 c1 by blast
qed

subsection \<open>The loop on the hotspots of \<open>main.py\<close>\<close>

lemma main_finger_inside_cases:
  "main_finger_inside h points = (if points = [] then Inr False else Inl AttributeError)"
proof -
  have e: "fold (\<lambda>point r. case r of
                        Inl e \<Rightarrow> Inl e
                      | Inr inside \<Rightarrow>
                          (case main_is_point_inside h point of
                             Inl e \<Rightarrow> Inl e
                           | Inr is_inside \<Rightarrow> Inr (if is_inside then True else inside)))
          points (Inl AttributeError) = Inl AttributeError" for points
    by (induction points) simp_all
  show ?thesis
    by (cases points) (simp_all add: main_finger_inside_def main_is_point_inside_def e)
qed

lemma main_update_raises:
  "\<not> m_is_activated h \<Longrightarrow> points \<noteq> [] \<Longrightarrow> main_update clk n h points = Inl AttributeError"
  by (simp add: main_update_def main_finger_inside_cases)

lemma main_update_never_reports:
  assumes "main_update clk n h points = Inr (ja, h', n')"
  shows "\<not> ja" and "m_is_activated h' = m_is_activated h" and "m_id h' = m_id h"
  using assms
  by (auto simp: main_update_def main_finger_inside_cases split: if_splits prod.splits)

lemma main_arbiter_step_listener:
  "main_arbiter_step clk pts i w = Inr w' \<Longrightarrow> m_listener w' = m_listener w"
  by (auto simp: main_arbiter_step_def split: sum.splits if_splits
        dest: main_update_never_reports(1))

lemma main_arbiter_pass_silent:
  assumes "main_arbiter_pass clk pts (hs, evs) = Inr (hs', evs')"
  shows "evs' = evs"
proof -
  let ?P = "\<lambda>r :: py_exception + MainArbiter. \<forall>w. r = Inr w \<longrightarrow> m_listener w = evs"
  have "?P (fold (\<lambda>i r. case r of Inl e \<Rightarrow> Inl e | Inr w \<Rightarrow> main_arbiter_step clk pts i w)
              [0..<length hs] (Inr \<lparr>m_hotspots = hs, m_reads = 0, m_listener = evs\<rparr>))"
  proof (rule fold_upt_invariant)
    show "?P (Inr \<lparr>m_hotspots = hs, m_reads = 0, m_listener = evs\<rparr>)" by simp
  next
    fix i r
    assume "?P r"
    then show "?P (case r of Inl e \<Rightarrow> Inl e | Inr w \<Rightarrow> main_arbiter_step clk pts i w)"
      by (cases r) (auto dest: main_arbiter_step_listener)
  qed
  then show ?thesis
    using assms by (auto simp: main_arbiter_pass_def split: sum.splits)
qed

lemma MainHotspot_init_no_calibrator:
  "MainHotspot_init perspectiveTransform hotspot_id proj_pos (PyFloat x) radius t
     = Inl AttributeError"
  by (simp add: MainHotspot_init_def)

lemma run_raises: "run perspectiveTransform t0 t1 frames = Inl AttributeError"
  by (simp add: run_def MainHotspot_init_no_calibrator)

text \<open>
  C2. \<open>run\<close> on a video with a fingertip on each of the two positions, at times 0 and 2
  (long enough to charge both buttons): the call \<open>Hotspot(0, 0.5, 0.5, event_listener)\<close>
  looks up \<open>transform4Mediapipes\<close> on the float 0.5 and raises \<open>AttributeError\<close>, so
  \<open>run\<close> ends before its first frame: no hotspot is activated and the listener is never
  called.
\<close>

theorem run_raises_before_first_frame:
  "run cv2_perspectiveTransform 0 0 [touch_both 0, touch_both 2] = Inl AttributeError"
  by (simp add: run_def MainHotspot_init_def)

section \<open>The marker layout\<close>

lemma grid_row:
  "\<exists>d'. fold (place_marker spacing offset i) [0..<n] (d, c) = (d', c + n)
        \<and> (distinct (map fst d) \<longrightarrow> distinct (map fst d'))
        \<and> (\<forall>k. map_of d' k
               = (if c \<le> k \<and> k < c + n
                  then Some (offset + spacing * int i, offset + spacing * int (k - c))
                  else map_of d k))"
proof (induction n)
  case 0
  show ?case by auto
next
  case (Suc n)
  then obtain d1 where
    f: "fold (place_marker spacing offset i) [0..<n] (d, c) = (d1, c + n)"
    and dist: "distinct (map fst d) \<longrightarrow> distinct (map fst d1)"
    and m: "\<And>k. map_of d1 k
               = (if c \<le> k \<and> k < c + n
                  then Some (offset + spacing * int i, offset + spacing * int (k - c))
                  else map_of d k)"
    by blast
  let ?d' = "AList.update (c + n) (offset + spacing * int i, offset + spacing * int n) d1"
  have "fold (place_marker spacing offset i) [0..<Suc n] (d, c) = (?d', c + Suc n)"
    by (simp add: f place_marker_def)
  moreover have "distinct (map fst d) \<longrightarrow> distinct (map fst ?d')"
    using dist by (simp add: distinct_update)
  moreover have "map_of ?d' k
               = (if c \<le> k \<and> k < c + Suc n
                  then Some (offset + spacing * int i, offset + spacing * int (k - c))
                  else map_of d k)" for k
    using m[of k] by (auto simp: update_conv')
  ultimately show ?case by blast
qed

lemma grid_rows:
  "\<exists>d. fold (\<lambda>i. fold (place_marker spacing offset i) [0..<cols]) [0..<r] ([], 0)
          = (d, r * cols)
       \<and> distinct (map fst d)
       \<and> (\<forall>k. map_of d k
              = (if k < r * cols
                 then Some (offset + spacing * int (k div cols), offset + spacing * int (k mod cols))
                 else None))"
proof (induction r)
  case 0
  show ?case by simp
next
  case (Suc r)
  then obtain d where
    f: "fold (\<lambda>i. fold (place_marker spacing offset i) [0..<cols]) [0..<r] ([], 0)
          = (d, r * cols)"
    and dist: "distinct (map fst d)"
    and m: "\<And>k. map_of d k
              = (if k < r * cols
                 then Some (offset + spacing * int (k div cols), offset + spacing * int (k mod cols))
                 else None)"
    by blast
  obtain d' where
    g: "fold (place_marker spacing offset r) [0..<cols] (d, r * cols) = (d', r * cols + cols)"
    and dist': "distinct (map fst d')"
    and m': "\<And>k. map_of d' k
               = (if r * cols \<le> k \<and> k < r * cols + cols
                  then Some (offset + spacing * int r, offset + spacing * int (k - r * cols))
                  else map_of d k)"
    using grid_row[of spacing offset r cols d "r * cols"] dist by blast
  have "fold (\<lambda>i. fold (place_marker spacing offset i) [0..<cols]) [0..<Suc r] ([], 0)
          = (d', Suc r * cols)"
    by (simp add: f g)
  moreover have "map_of d' k
              = (if k < Suc r * cols
                 then Some (offset + spacing * int (k div cols), offset + spacing * int (k mod cols))
                 else None)" for k
  proof (cases "r * cols \<le> k \<and> k < r * cols + cols")
    case True
    then have dv: "k div cols = r" by (intro div_nat_eqI) (simp_all add: mult.commute)
    have "k mod cols = k - r * cols"
      using minus_mult_div_eq_mod[of k cols] dv by (simp add: mult.commute)
    then show ?thesis using True dv m'[of k] by simp
  next
    case False
    then show ?thesis using m'[of k] m[of k] by auto
  qed
  ultimately show ?case using dist' by blast
qed

lemma grid_coords_lookup:
  "map_of (fst (grid_coords rows cols spacing offset)) code
     = (if code < rows * cols
        then Some (offset + spacing * int (code div cols), offset + spacing * int (code mod cols))
        else None)"
  using grid_rows[of spacing offset cols rows] by (auto simp: grid_coords_def)

lemma grid_coords_distinct: "distinct (map fst (fst (grid_coords rows cols spacing offset)))"
  using grid_rows[of spacing offset cols rows] by (auto simp: grid_coords_def)

lemma grid_coords_keys: "fst ` set (fst (grid_coords rows cols spacing offset)) = {..<rows * cols}"
proof -
  have "dom (map_of (fst (grid_coords rows cols spacing offset))) = {..<rows * cols}"
    by (auto simp: grid_coords_lookup dom_def)
  then show ?thesis by (simp add: dom_map_of_conv_image_fst)
qed

text \<open>
  C7, as the source has it. Marker 13 of the layout of \<open>calibrate\<close> (6 rows of 12
  markers) is at \<open>(175, 175)\<close>, not at \<open>(25, 175)\<close>; in a grid of 12 rows of 6 markers
  it would be at \<open>(325, 175)\<close>.
\<close>

theorem marker_13_counterexample:
  "map_of projectedCoords 13 = Some (175, 175)
   \<and> map_of projectedCoords 13 \<noteq> Some (25, 175)
   \<and> map_of (fst (grid_coords 12 6 150 25)) 13 = Some (325, 175)
   \<and> map_of (fst (grid_coords 12 6 150 25)) 13 \<noteq> Some (25, 175)"
  by (simp add: projectedCoords_def grid_coords_lookup)

text \<open>
  C7, amended. In the grid of \<open>rows\<close> rows of \<open>cols\<close> markers, every code below
  \<open>rows * cols\<close> is placed at
  \<open>(originOffsetPx + cellSpacingPx * (code div cols),
    originOffsetPx + cellSpacingPx * (code mod cols))\<close>; the layout of the source is the
  grid of 6 rows of 12 markers with spacing 150 and offset 25, in which marker 0 is at
  \<open>(25, 25)\<close> and marker 13 is at \<open>(175, 175)\<close>.
\<close>

theorem layout_positions:
  "(code < rows * cols \<longrightarrow>
      map_of (fst (grid_coords rows cols cellSpacingPx originOffsetPx)) code
        = Some (originOffsetPx + cellSpacingPx * int (code div cols),
                originOffsetPx + cellSpacingPx * int (code mod cols)))
   \<and> projectedCoords = fst (grid_coords 6 12 150 25)
   \<and> map_of projectedCoords 0 = Some (25, 25)
   \<and> map_of projectedCoords 13 = Some (175, 175)"
  by (simp add: grid_coords_lookup projectedCoords_def)


theorem layout_positions_witness:
  "(13 :: nat) < 6 * 12 \<and> map_of (fst (grid_coords 6 12 150 25)) 13 = Some (175, 175)"
  using layout_positions[of 13 6 12 150 25] by simp

section \<open>Calibration\<close>

lemma matching_fold:
  assumes "set ks \<subseteq> fst ` set fromCoords"
  shows "fold (\<lambda>iD (fromArray, toArray).
             case (map_of fromCoords iD, map_of toCoords iD) of
               (Some p, Some q) \<Rightarrow> (fromArray @ [p], toArray @ [q])
             | _ \<Rightarrow> (fromArray, toArray)) ks (fa, ta)
         = (fa @ map (\<lambda>k. the (map_of fromCoords k)) (filter (\<lambda>k. k \<in> fst ` set toCoords) ks),
            ta @ map (\<lambda>k. the (map_of toCoords k)) (filter (\<lambda>k. k \<in> fst ` set toCoords) ks))"
  using assms
proof (induction ks arbitrary: fa ta)
  case Nil
  show ?case by simp
next
  case (Cons k ks)
  have "map_of fromCoords k \<noteq> None"
    using Cons.prems by (simp add: map_of_eq_None_iff)
  then obtain p where p: "map_of fromCoords k = Some p" by blast
  have sub: "set ks \<subseteq> fst ` set fromCoords" using Cons.prems by simp
  show ?case
  proof (cases "k \<in> fst ` set toCoords")
    case True
    then have "map_of toCoords k \<noteq> None" by (simp add: map_of_eq_None_iff)
    then obtain q where q: "map_of toCoords k = Some q" by blast
    show ?thesis using True p q Cons.IH[OF sub, of "fa @ [p]" "ta @ [q]"] by simp
  next
    case False
    then have q: "map_of toCoords k = None" by (simp add: map_of_eq_None_iff)
    show ?thesis using False p q Cons.IH[OF sub, of fa ta] by simp
  qed
qed

lemma matching_eq:
  "matching fromCoords toCoords
     = (map (\<lambda>k. the (map_of fromCoords k))
          (filter (\<lambda>k. k \<in> fst ` set toCoords) (map fst fromCoords)),
        map (\<lambda>k. the (map_of toCoords k))
          (filter (\<lambda>k. k \<in> fst ` set toCoords) (map fst fromCoords)))"
  unfolding matching_def
  using matching_fold[of "map fst fromCoords" fromCoords toCoords "[]" "[]"] by simp

lemma matching_length:
  assumes "distinct (map fst fromCoords)"
  shows "length (fst (matching fromCoords toCoords))
           = card (fst ` set fromCoords \<inter> fst ` set toCoords)"
proof -
  have "length (fst (matching fromCoords toCoords))
          = length (filter (\<lambda>k. k \<in> fst ` set toCoords) (map fst fromCoords))"
    by (simp add: matching_eq)
  also have "\<dots> = card ({k. k \<in> fst ` set toCoords} \<inter> set (map fst fromCoords))"
    using assms by (rule distinct_length_filter)
  also have "{k. k \<in> fst ` set toCoords} \<inter> set (map fst fromCoords)
               = fst ` set fromCoords \<inter> fst ` set toCoords"
    by auto
  finally show ?thesis .
qed

lemma getTransformationMatrix_eq:
  assumes "distinct (map fst fromCoords)"
  shows "getTransformationMatrix findHomography fromCoords toCoords
           = (if card (fst ` set fromCoords \<inter> fst ` set toCoords) < 4 then Inr None
              else (case findHomography (fst (matching fromCoords toCoords))
                                         (snd (matching fromCoords toCoords)) of
                      LibraryRaises \<Rightarrow> Inl Cv2Error
                    | LibraryReturns m \<Rightarrow> Inr m))"
proof -
  obtain fa ta where m: "matching fromCoords toCoords = (fa, ta)"
    by (cases "matching fromCoords toCoords") auto
  have "length fa = card (fst ` set fromCoords \<inter> fst ` set toCoords)"
    using matching_length[OF assms, of toCoords] m by simp
  then show ?thesis by (simp add: getTransformationMatrix_def m)
qed

lemma float_coords_keys: "map fst (float_coords coords) = map fst coords"
  by (induction coords) (auto simp: float_coords_def)

lemma projectedCoords_keys:
  "distinct (map fst (float_coords projectedCoords))"
  "fst ` set (float_coords projectedCoords) = {..<72}"
proof -
  show "distinct (map fst (float_coords projectedCoords))"
    by (simp add: float_coords_keys projectedCoords_def grid_coords_distinct)
  have "fst ` set (float_coords projectedCoords) = set (map fst (float_coords projectedCoords))"
    by simp
  also have "\<dots> = fst ` set projectedCoords"
    unfolding float_coords_keys by simp
  also have "\<dots> = {..<72}"
    by (simp add: projectedCoords_def grid_coords_keys)
  finally show "fst ` set (float_coords projectedCoords) = {..<72}" .
qed

text \<open>
  C5, as the source has it. With three markers of the layout observed, \<open>calibrate\<close>
  returns normally and leaves \<open>None\<close> in both matrices: no error is raised.
\<close>

theorem insufficient_counterexample:
  "calibrate_from cv2_no_homography (480, 640) three_markers (Calibrator_init (1080, 1920))
     = Inr \<lparr>screenWidth = 1080, screenHeight = 1920, cameraWidth = Some 480,
            cameraHeight = Some 640, tMatrix = None, inverseTMatrix = None\<rparr>
   \<and> calibrate_from cv2_no_homography (480, 640) three_markers (Calibrator_init (1080, 1920))
       \<noteq> Inl InsufficientCorrespondences"
proof -
  have d: "distinct (map fst three_markers)"
    by (simp add: three_markers_def)
  have k: "fst ` set three_markers = {0, 1, 12}"
    by (simp add: three_markers_def)
  have n: "card ({..<72} \<inter> fst ` set three_markers) < 4"
    unfolding k by simp
  have a: "getTransformationMatrix cv2_no_homography (float_coords projectedCoords) three_markers
             = Inr None"
    using getTransformationMatrix_eq
            [OF projectedCoords_keys(1), of cv2_no_homography three_markers] n
    by (simp add: projectedCoords_keys(2))
  have b: "getTransformationMatrix cv2_no_homography three_markers (float_coords projectedCoords)
             = Inr None"
    using getTransformationMatrix_eq
            [OF d, of cv2_no_homography "float_coords projectedCoords"] n
    by (simp add: projectedCoords_keys(2) Int_commute)
  show ?thesis
    by (simp add: calibrate_from_def a b Calibrator_init_def)
qed

text \<open>
  C5, amended. For every dictionary of observed markers, with \<open>n\<close> the number of its ids
  that are ids of the layout: when \<open>n < 4\<close>, \<open>calibrate\<close> returns normally with
  \<open>None\<close> in \<open>_tMatrix\<close> and in \<open>_inverseTMatrix\<close>; when \<open>n \<ge> 4\<close>, it stores
  what \<open>cv2.findHomography\<close> returns for the matched points, in each direction, and it
  fails only if that call raises. It never fails with \<open>InsufficientCorrespondences\<close>.
\<close>

theorem calibrate_returns_sentinel:
  assumes "distinct (map fst cameraCoords)"
  shows "calibrate_from findHomography shape cameraCoords c
           = (if card ({..<72} \<inter> fst ` set cameraCoords) < 4
              then Inr (c\<lparr>cameraWidth := Some (fst shape), cameraHeight := Some (snd shape),
                        tMatrix := None, inverseTMatrix := None\<rparr>)
              else (case findHomography
                           (fst (matching (float_coords projectedCoords) cameraCoords))
                           (snd (matching (float_coords projectedCoords) cameraCoords)) of
                      LibraryRaises \<Rightarrow> Inl Cv2Error
                    | LibraryReturns m \<Rightarrow>
                        (case findHomography
                                (fst (matching cameraCoords (float_coords projectedCoords)))
                                (snd (matching cameraCoords (float_coords projectedCoords))) of
                           LibraryRaises \<Rightarrow> Inl Cv2Error
                         | LibraryReturns mi \<Rightarrow>
                             Inr (c\<lparr>cameraWidth := Some (fst shape),
                                    cameraHeight := Some (snd shape),
                                    tMatrix := m, inverseTMatrix := mi\<rparr>))))
         \<and> calibrate_from findHomography shape cameraCoords c \<noteq> Inl InsufficientCorrespondences"
proof -
  have a: "getTransformationMatrix findHomography (float_coords projectedCoords) cameraCoords
           = (if card ({..<72} \<inter> fst ` set cameraCoords) < 4 then Inr None
              else (case findHomography
                           (fst (matching (float_coords projectedCoords) cameraCoords))
                           (snd (matching (float_coords projectedCoords) cameraCoords)) of
                      LibraryRaises \<Rightarrow> Inl Cv2Error
                    | LibraryReturns m \<Rightarrow> Inr m))"
    using getTransformationMatrix_eq[OF projectedCoords_keys(1), of findHomography cameraCoords]
    by (simp add: projectedCoords_keys(2))
  have b: "getTransformationMatrix findHomography cameraCoords (float_coords projectedCoords)
           = (if card ({..<72} \<inter> fst ` set cameraCoords) < 4 then Inr None
              else (case findHomography
                           (fst (matching cameraCoords (float_coords projectedCoords)))
                           (snd (matching cameraCoords (float_coords projectedCoords))) of
                      LibraryRaises \<Rightarrow> Inl Cv2Error
                    | LibraryReturns m \<Rightarrow> Inr m))"
    using getTransformationMatrix_eq[OF assms, of findHomography "float_coords projectedCoords"]
    by (simp add: projectedCoords_keys(2) Int_commute)
  show ?thesis
    unfolding calibrate_from_def Let_def a b
    by (simp split: library.splits)
qed

theorem calibrate_returns_sentinel_witness:
  "distinct (map fst two_markers)
   \<and> calibrate_from cv2_no_homography (480, 640) two_markers (Calibrator_init (1080, 1920))
       = Inr \<lparr>screenWidth = 1080, screenHeight = 1920, cameraWidth = Some 480,
              cameraHeight = Some 640, tMatrix = None, inverseTMatrix = None\<rparr>"
proof -
  have d: "distinct (map fst two_markers)"
    by (simp add: two_markers_def)
  have k: "fst ` set two_markers = {5, 70, 99}"
    by (simp add: two_markers_def)
  have n: "card ({..<72} \<inter> fst ` set two_markers) < 4"
    unfolding k by simp
  show ?thesis
    using d n calibrate_returns_sentinel
                [OF d, of cv2_no_homography "(480, 640)" "Calibrator_init (1080, 1920)"]
    by (simp add: Calibrator_init_def)
qed

text \<open>
  C6, as the source has it. \<open>transform\<close> on a new calibrator hands the \<open>None\<close> matrix
  to \<open>cv2.perspectiveTransform\<close>, and the failure is the library's.
\<close>

theorem not_calibrated_counterexample:
  "transform cv2_perspectiveTransform (Calibrator_init (1080, 1920)) (700, 700) = Inl Cv2Error
   \<and> transform cv2_perspectiveTransform (Calibrator_init (1080, 1920)) (700, 700)
       \<noteq> Inl NotCalibrated"
  by (simp add: transform_def Calibrator_init_def)

text \<open>
  C6, amended. \<open>transform\<close> and \<open>inverseTransform\<close> have no guard: on a calibrator
  whose matrix is \<open>None\<close> (neither \<open>calibrate\<close> nor \<open>skipCalibration\<close> has stored one)
  they pass \<open>None\<close> to \<open>cv2.perspectiveTransform\<close>, and the outcome is that call's: its
  exception, or its result with the two coordinates swapped. It is never
  \<open>NotCalibrated\<close>.
\<close>

theorem transform_uncalibrated:
  "(tMatrix c = None \<longrightarrow>
      transform perspectiveTransform c vector
        = (case perspectiveTransform vector None of
             LibraryRaises \<Rightarrow> Inl Cv2Error
           | LibraryReturns p \<Rightarrow> Inr (snd p, fst p)))
   \<and> (inverseTMatrix c = None \<longrightarrow>
      inverseTransform perspectiveTransform c vector
        = (case perspectiveTransform vector None of
             LibraryRaises \<Rightarrow> Inl Cv2Error
           | LibraryReturns p \<Rightarrow> Inr (snd p, fst p)))
   \<and> transform perspectiveTransform c vector \<noteq> Inl NotCalibrated
   \<and> inverseTransform perspectiveTransform c vector \<noteq> Inl NotCalibrated
   \<and> tMatrix (Calibrator_init screenDimensions) = None
   \<and> inverseTMatrix (Calibrator_init screenDimensions) = None"
  by (simp add: transform_def inverseTransform_def Calibrator_init_def split: library.splits)

theorem transform_uncalibrated_witness:
  "tMatrix (Calibrator_init (1080, 1920)) = None
   \<and> inverseTMatrix (Calibrator_init (1080, 1920)) = None
   \<and> transform cv2_perspectiveTransform (Calibrator_init (1080, 1920)) (100, 100)
       = Inl Cv2Error
   \<and> inverseTransform cv2_perspectiveTransform (Calibrator_init (1080, 1920)) (100, 100)
       = Inl Cv2Error"
  using transform_uncalibrated
          [of "Calibrator_init (1080, 1920)" cv2_perspectiveTransform "(100, 100)" "(1080, 1920)"]
  by simp

end
